theory Spec2Isabelle
  imports Complex_Main "HOL-Library.Word" "HOL-Library.Sublist"
begin

unbundle bit_operations_syntax

section \<open>The streaming session of \<^verbatim>\<open>Content.js\<close>\<close>

text \<open>
  The theory embeds the audio codec and the WebSocket/engagement handlers of
  \<^verbatim>\<open>src/frontend/react-web/src/Content.js\<close>. Typed arrays are lists, an
  \<^verbatim>\<open>Int16Array\<close> element is a \<open>16 word\<close>, a byte of an \<^verbatim>\<open>ArrayBuffer\<close> is an
  \<open>8 word\<close>, exceptions are values of the type \<open>error\<close>, and the React state and
  the refs of the component are the fields of one record that every handler
  takes and returns.
\<close>

subsection \<open>Numbers, bytes and errors\<close>

text \<open>
  A JavaScript number read from a \<^verbatim>\<open>Float32Array\<close> is a finite value, an
  infinity or NaN. Finite values are real numbers here. The arithmetic of the
  codec is exact on them: a float32 has a 24-bit significand, so its product
  with \<open>0x8000\<close> (a power of two) or with \<open>0x7FFF\<close> (15 bits) has at most 39
  significant bits and is computed by the double multiplication without
  rounding; a signed 16-bit value divided by \<open>32768.0\<close> is a dyadic fraction
  with 16 significant bits, which a float32 stores unchanged. Zero stands for
  both signed zeros, which the code does not distinguish.
\<close>

datatype number = Fin real | PosInf | NegInf | NaN

type_synonym byte = "8 word"
type_synonym int16 = "16 word"

datatype error = RangeError | TypeError

text \<open>\<^verbatim>\<open>Math.min(1, x)\<close> and \<^verbatim>\<open>Math.max(-1, y)\<close>: NaN is contagious.\<close>

fun Math_min_1 :: "number \<Rightarrow> number" where
  "Math_min_1 (Fin r) = Fin (min 1 r)"
| "Math_min_1 PosInf = Fin 1"
| "Math_min_1 NegInf = NegInf"
| "Math_min_1 NaN = NaN"

fun Math_max_neg1 :: "number \<Rightarrow> number" where
  "Math_max_neg1 (Fin r) = Fin (max (- 1) r)"
| "Math_max_neg1 PosInf = PosInf"
| "Math_max_neg1 NegInf = Fin (- 1)"
| "Math_max_neg1 NaN = NaN"

text \<open>\<^verbatim>\<open>s < 0 ? s * 0x8000 : s * 0x7FFF\<close>; a comparison with NaN is false.\<close>

fun scale :: "number \<Rightarrow> number" where
  "scale (Fin r) = Fin (if r < 0 then r * 32768 else r * 32767)"
| "scale PosInf = PosInf"
| "scale NegInf = NegInf"
| "scale NaN = NaN"

text \<open>
  Storing a number into an \<^verbatim>\<open>Int16Array\<close> applies the language's ToInt16:
  NaN and the infinities become 0, a finite value is truncated towards zero
  and reduced modulo \<open>2^16\<close>.
\<close>

definition js_trunc :: "real \<Rightarrow> int" where
  "js_trunc r = (if r < 0 then \<lceil>r\<rceil> else \<lfloor>r\<rfloor>)"

fun ToInt16 :: "number \<Rightarrow> int16" where
  "ToInt16 (Fin r) = word_of_int (js_trunc r)"
| "ToInt16 PosInf = 0"
| "ToInt16 NegInf = 0"
| "ToInt16 NaN = 0"

subsection \<open>\<^verbatim>\<open>floatToPcm16\<close>\<close>

text \<open>The body of the loop, for one sample.\<close>

definition sample_to_pcm16 :: "number \<Rightarrow> int16" where
  "sample_to_pcm16 x = (let s = Math_max_neg1 (Math_min_1 x) in ToInt16 (scale s))"

text \<open>
  \<^verbatim>\<open>for (let i = 0; i < input.length; i++) output[i] = ...\<close> on an output array
  allocated with \<open>input.length\<close> zeros.
\<close>

function floatToPcm16_loop :: "number list \<Rightarrow> nat \<Rightarrow> int16 list \<Rightarrow> int16 list" where
  "floatToPcm16_loop input i output =
     (if i < length input
      then floatToPcm16_loop input (i + 1) (output[i := sample_to_pcm16 (input ! i)])
      else output)"
  by pat_completeness auto
termination
  by (relation "measure (\<lambda>(input, i, output). length input - i)") auto

definition floatToPcm16 :: "number list \<Rightarrow> int16 list" where
  "floatToPcm16 input = floatToPcm16_loop input 0 (replicate (length input) 0)"

subsection \<open>\<^verbatim>\<open>pcm16ToFloat\<close>\<close>

text \<open>
  \<^verbatim>\<open>DataView.getInt16(off, true)\<close>: little-endian, RangeError outside the
  buffer.
\<close>

definition getInt16 :: "byte list \<Rightarrow> nat \<Rightarrow> error + int16" where
  "getInt16 buffer off =
     (if off + 2 \<le> length buffer
      then Inr (word_cat (buffer ! (off + 1)) (buffer ! off))
      else Inl RangeError)"

function pcm16ToFloat_loop ::
  "byte list \<Rightarrow> nat \<Rightarrow> number list \<Rightarrow> error + number list" where
  "pcm16ToFloat_loop buffer i float32 =
     (if i < length float32
      then (case getInt16 buffer (i * 2) of
              Inl e \<Rightarrow> Inl e
            | Inr int16 \<Rightarrow>
                pcm16ToFloat_loop buffer (i + 1)
                  (float32[i := Fin (of_int (sint int16) / 32768)]))
      else Inr float32)"
  by pat_completeness auto
termination
  by (relation "measure (\<lambda>(buffer, i, float32). length float32 - i)") auto

text \<open>
  \<^verbatim>\<open>new Float32Array(buffer.byteLength / 2)\<close>: the constructor truncates a
  fractional length (ToIndex), so an odd byte length gives \<open>length div 2\<close>
  elements.
\<close>

definition pcm16ToFloat :: "byte list \<Rightarrow> error + number list" where
  "pcm16ToFloat buffer =
     pcm16ToFloat_loop buffer 0 (replicate (length buffer div 2) (Fin 0))"

subsection \<open>Writing the samples into the outgoing buffer\<close>

text \<open>\<^verbatim>\<open>DataView.setInt16(off, value, true)\<close>.\<close>

definition setInt16 :: "byte list \<Rightarrow> nat \<Rightarrow> int16 \<Rightarrow> error + byte list" where
  "setInt16 buffer off v =
     (if off + 2 \<le> length buffer
      then Inr (buffer[off := ucast v, off + 1 := ucast (drop_bit 8 v)])
      else Inl RangeError)"

text \<open>
  \<^verbatim>\<open>pcm16.forEach((value, index) => view.setInt16(index * 2, value, true))\<close>.
\<close>

function forEach_setInt16 :: "int16 list \<Rightarrow> nat \<Rightarrow> byte list \<Rightarrow> error + byte list" where
  "forEach_setInt16 pcm16 index buffer =
     (if index < length pcm16
      then (case setInt16 buffer (index * 2) (pcm16 ! index) of
              Inl e \<Rightarrow> Inl e
            | Inr buffer' \<Rightarrow> forEach_setInt16 pcm16 (index + 1) buffer')
      else Inr buffer)"
  by pat_completeness auto
termination
  by (relation "measure (\<lambda>(pcm16, index, buffer). length pcm16 - index)") auto

text \<open>
  Lines 169 to 173 of \<^verbatim>\<open>processor.onaudioprocess\<close>: the bytes of one captured
  block, before the text encoding.
\<close>

definition frame_bytes :: "number list \<Rightarrow> error + byte list" where
  "frame_bytes input =
     (let pcm16 = floatToPcm16 input
      in forEach_setInt16 pcm16 0 (replicate (length pcm16 * 2) 0))"

text \<open>
  Views of the buffers used to state the properties of the codec: the two
  bytes \<^verbatim>\<open>setInt16\<close> writes for one value, the value \<^verbatim>\<open>getInt16\<close> reads at
  sample index \<open>j\<close>, the number \<^verbatim>\<open>pcm16ToFloat\<close> stores for one value, and
  lines 62 and 63 of \<^verbatim>\<open>floatToPcm16\<close> on a finite sample, before the store
  into the \<^verbatim>\<open>Int16Array\<close>.
\<close>

definition le_pair :: "int16 \<Rightarrow> byte list" where
  "le_pair v = [ucast v, ucast (drop_bit 8 v)]"

definition int16_at :: "byte list \<Rightarrow> nat \<Rightarrow> int16" where
  "int16_at buffer j = word_cat (buffer ! (j * 2 + 1)) (buffer ! (j * 2))"

definition decode_sample :: "int16 \<Rightarrow> number" where
  "decode_sample v = Fin (of_int (sint v) / 32768)"

definition clamp_scale :: "real \<Rightarrow> real" where
  "clamp_scale r = (let s = max (- 1) (min 1 r) in if s < 0 then s * 32768 else s * 32767)"

text \<open>
  The encoding of one finite sample as the specification words it, with
  \<open>floor\<close>; the code is compared with it below.
\<close>

definition spec_encode_sample :: "real \<Rightarrow> int" where
  "spec_encode_sample r = \<lfloor>clamp_scale r\<rfloor>"

subsection \<open>Parsed messages\<close>

text \<open>
  The result of \<^verbatim>\<open>JSON.parse\<close>. An object is the list of its properties (the
  first binding of a name is its value). Reading a property of \<^verbatim>\<open>null\<close> throws
  a TypeError; reading one of any other value that does not have it gives
  \<^verbatim>\<open>undefined\<close>, which is \<open>None\<close>.
\<close>

datatype json =
    JNull
  | JBool bool
  | JNum real
  | JStr string
  | JArr "json list"
  | JObj "(string \<times> json) list"

fun get_prop :: "json \<Rightarrow> string \<Rightarrow> error + json option" where
  "get_prop JNull k = Inl TypeError"
| "get_prop (JObj kvs) k = Inr (map_of kvs k)"
| "get_prop (JBool b) k = Inr None"
| "get_prop (JNum x) k = Inr None"
| "get_prop (JStr s) k = Inr None"
| "get_prop (JArr xs) k = Inr None"

subsection \<open>The state of the component\<close>

datatype ready_state = CONNECTING | OPEN | CLOSING | CLOSED

text \<open>
  One \<^verbatim>\<open>WebSocket\<close> made by \<^verbatim>\<open>connectWebSocket\<close>, with what the closures of that
  call hold: whether its \<^verbatim>\<open>connectionTimeout\<close> is still pending, and the value
  of \<^verbatim>\<open>isTalking\<close> that the effect captured when it ran (the handlers read the
  captured constant, not the current state). \<open>sent\<close> logs the frames passed to
  \<^verbatim>\<open>send\<close>.
\<close>

record socket =
  readyState :: ready_state
  connectionTimeout :: bool
  captured_isTalking :: bool
  sent :: "string list"

text \<open>Messages posted to the port of the audio worklet node.\<close>

datatype port_msg = Port_stop | Port_data "number list"

datatype context_state = Ctx_running | Ctx_closed

record entry =
  isMine :: bool
  text' :: "json option"

text \<open>
  The React state (\<open>messages\<close>, \<open>isTalking\<close>, \<open>isEngaged\<close>) and the refs.
  \<open>sockets\<close> holds every socket created so far, in creation order, and
  \<open>wsRef\<close> is the index of \<^verbatim>\<open>wsRef.current\<close>. \<open>audioWorkletNodeRef\<close> is the
  log of the messages posted to the current node, \<open>None\<close> while the ref is
  null. \<open>processors\<close> counts the script processors that
  \<^verbatim>\<open>initMicrophone\<close> has connected in the current audio context.
\<close>

record state =
  messages :: "entry list"
  isTalking :: bool
  isEngaged :: bool
  sockets :: "socket list"
  wsRef :: "nat option"
  audioContextRef :: "context_state option"
  audioWorkletNodeRef :: "port_msg list option"
  processors :: nat

definition initial :: state where
  "initial = \<lparr>messages = [], isTalking = False, isEngaged = False, sockets = [],
     wsRef = None, audioContextRef = None, audioWorkletNodeRef = None, processors = 0\<rparr>"

definition setTalking :: "bool \<Rightarrow> state \<Rightarrow> state" where
  "setTalking b st = st\<lparr>isTalking := b\<rparr>"

definition on_socket :: "nat \<Rightarrow> (socket \<Rightarrow> socket) \<Rightarrow> state \<Rightarrow> state" where
  "on_socket n f st = st\<lparr>sockets := (sockets st)[n := f (sockets st ! n)]\<rparr>"

definition clearTimeout :: "nat \<Rightarrow> state \<Rightarrow> state" where
  "clearTimeout n = on_socket n (\<lambda>s. s\<lparr>connectionTimeout := False\<rparr>)"

text \<open>
  \<^verbatim>\<open>WebSocket.close\<close>: a connecting or open socket starts closing, a closing or
  closed one is left as it is. The close event comes later, from the platform.
\<close>

definition ws_close :: "nat \<Rightarrow> state \<Rightarrow> state" where
  "ws_close n = on_socket n (\<lambda>s.
     if readyState s = CONNECTING \<or> readyState s = OPEN then s\<lparr>readyState := CLOSING\<rparr> else s)"

definition ws_send :: "nat \<Rightarrow> string \<Rightarrow> state \<Rightarrow> state" where
  "ws_send n frame = on_socket n (\<lambda>s. s\<lparr>sent := sent s @ [frame]\<rparr>)"

definition postMessage :: "port_msg \<Rightarrow> state \<Rightarrow> state" where
  "postMessage m st =
     (case audioWorkletNodeRef st of
        None \<Rightarrow> st
      | Some posted \<Rightarrow> st\<lparr>audioWorkletNodeRef := Some (posted @ [m])\<rparr>)"

text \<open>Closing the audio context ends the capture graph built in it.\<close>

definition close_context :: "state \<Rightarrow> state" where
  "close_context st = st\<lparr>audioContextRef := Some Ctx_closed, processors := 0\<rparr>"

subsection \<open>Audio set-up and tear-down\<close>

text \<open>
  \<^verbatim>\<open>cleanup\<close>: closes the current socket with code 1000 when it is open or
  connecting, then closes the audio context unless it is closed already (the
  guards on null refs are the \<open>None\<close> cases). It touches no timer.
\<close>

definition cleanup :: "state \<Rightarrow> state" where
  "cleanup st =
     (let st1 = (case wsRef st of
                   None \<Rightarrow> st
                 | Some n \<Rightarrow>
                     if readyState (sockets st ! n) = OPEN \<or>
                        readyState (sockets st ! n) = CONNECTING
                     then ws_close n st else st)
      in case audioContextRef st1 of
           None \<Rightarrow> st1
         | Some c \<Rightarrow> if c \<noteq> Ctx_closed then close_context st1 else st1)"

text \<open>
  \<^verbatim>\<open>initAudioWorklet\<close>. The previous context is closed if it is still
  running, and a new one is stored in the ref. The argument says whether the
  awaited platform calls that follow succeed; a failure is taken at the first
  of them, the loading of the processor module, so the new context is already
  in the ref while the worklet node is not replaced. The failure is caught and
  the function returns \<open>False\<close>.
\<close>

definition initAudioWorklet :: "bool \<Rightarrow> state \<Rightarrow> bool \<times> state" where
  "initAudioWorklet ok st =
     (let st1 = (if audioContextRef st = Some Ctx_running then close_context st else st);
          st2 = st1\<lparr>audioContextRef := Some Ctx_running, processors := 0\<rparr>
      in if ok
         then (True, st2\<lparr>audioWorkletNodeRef := Some []\<rparr>)
         else (False, st2))"

text \<open>
  \<^verbatim>\<open>initMicrophone\<close>. The argument says whether \<^verbatim>\<open>getUserMedia\<close> grants the
  device; building the graph throws on a missing or closed context. Every
  failure is caught inside, and the caller ignores the returned flag.
\<close>

definition initMicrophone :: "bool \<Rightarrow> state \<Rightarrow> state" where
  "initMicrophone granted st =
     (if granted \<and> audioContextRef st = Some Ctx_running
      then st\<lparr>processors := processors st + 1\<rparr> else st)"

subsection \<open>The transport\<close>

text \<open>
  \<^verbatim>\<open>connectWebSocket\<close>: a new socket replaces \<^verbatim>\<open>wsRef.current\<close> and its 5000 ms
  timer is started. The constructor is called on two constants and is taken to
  succeed. The first argument is the \<^verbatim>\<open>isTalking\<close> of the enclosing effect.
\<close>

definition connectWebSocket :: "bool \<Rightarrow> state \<Rightarrow> state" where
  "connectWebSocket seen st =
     st\<lparr>sockets := sockets st @
            [\<lparr>readyState = CONNECTING, connectionTimeout = True,
              captured_isTalking = seen, sent = []\<rparr>],
        wsRef := Some (length (sockets st))\<rparr>"

text \<open>
  The callback of the timer of attempt \<open>n\<close>. It looks at \<^verbatim>\<open>wsRef.current\<close>, and
  at nothing else: neither \<^verbatim>\<open>isEngaged\<close> nor \<^verbatim>\<open>isComponentMounted\<close>.
\<close>

definition timeout_callback :: "nat \<Rightarrow> state \<Rightarrow> state" where
  "timeout_callback n st =
     (case wsRef st of
        None \<Rightarrow> st
      | Some c \<Rightarrow>
          if readyState (sockets st ! c) \<noteq> OPEN
          then connectWebSocket (captured_isTalking (sockets st ! n)) (ws_close c st)
          else st)"

definition onopen :: "nat \<Rightarrow> bool \<Rightarrow> state \<Rightarrow> state" where
  "onopen n granted st = initMicrophone granted (clearTimeout n st)"

definition onerror :: "nat \<Rightarrow> state \<Rightarrow> state" where
  "onerror n st = setTalking False (clearTimeout n st)"

text \<open>
  \<^verbatim>\<open>setEngaged(false)\<close>. React runs the effect after the state has changed: the
  clean-up function the previous run returned (which calls \<^verbatim>\<open>cleanup\<close>), then
  the effect body, which calls \<^verbatim>\<open>cleanup\<close> again since \<^verbatim>\<open>isEngaged\<close> is false. The
  model runs both in the same step. Setting the value the state already has
  does nothing.
\<close>

definition setEngaged_false :: "state \<Rightarrow> state" where
  "setEngaged_false st =
     (if isEngaged st then cleanup (cleanup (st\<lparr>isEngaged := False\<rparr>)) else st)"

definition onclose :: "nat \<Rightarrow> nat \<Rightarrow> state \<Rightarrow> state" where
  "onclose n code st =
     (let st1 = setTalking False (clearTimeout n st)
      in if code \<noteq> 1000 then st1 else setEngaged_false st1)"

text \<open>
  \<^verbatim>\<open>onmessage\<close> of socket \<open>n\<close>. The second argument is the result of
  \<^verbatim>\<open>JSON.parse(event.data)\<close>, \<open>None\<close> when it throws. \<open>atob\<close> is the platform's
  decoder applied to \<^verbatim>\<open>chunk.data\<close>, giving the character codes of the binary
  string or \<open>None\<close> when it throws. Every exception ends the handler in a
  \<^verbatim>\<open>catch\<close> that only logs.
\<close>

definition onmessage ::
  "(json option \<Rightarrow> byte list option) \<Rightarrow> nat \<Rightarrow> json option \<Rightarrow> state \<Rightarrow> state" where
  "onmessage atob n parsed st =
     (case parsed of
        None \<Rightarrow> st
      | Some chunk \<Rightarrow>
          (case get_prop chunk ''event'' of
             Inl e \<Rightarrow> st
           | Inr ev \<Rightarrow>
               if ev = Some (JStr ''stop'') then
                 setTalking False (postMessage Port_stop st)
               else if ev = Some (JStr ''media'') then
                 (case get_prop chunk ''data'' of
                    Inl e \<Rightarrow> st
                  | Inr base64Data \<Rightarrow>
                      (case atob base64Data of
                         None \<Rightarrow> st
                       | Some bytes \<Rightarrow>
                           (case pcm16ToFloat bytes of
                              Inl e \<Rightarrow> st
                            | Inr float32Array \<Rightarrow>
                                if length float32Array > 0 \<and> audioWorkletNodeRef st \<noteq> None
                                then (let st1 = postMessage (Port_data float32Array) st
                                      in if \<not> captured_isTalking (sockets st ! n)
                                         then setTalking True st1 else st1)
                                else st)))
               else if ev = Some (JStr ''text'') then
                 (case (get_prop chunk ''speaker'', get_prop chunk ''data'') of
                    (Inr speaker, Inr data) \<Rightarrow>
                      st\<lparr>messages := messages st @
                           [\<lparr>isMine = (speaker = Some (JStr ''user'')), text' = data\<rparr>]\<rparr>
                  | _ \<Rightarrow> st)
               else st))"

subsection \<open>Capture\<close>

text \<open>
  \<^verbatim>\<open>processor.onaudioprocess\<close>. \<open>btoa\<close> is the platform's text encoding of the
  bytes (\<^verbatim>\<open>btoa(String.fromCharCode.apply(null, bytes))\<close>).
\<close>

definition onaudioprocess :: "(byte list \<Rightarrow> string) \<Rightarrow> number list \<Rightarrow> state \<Rightarrow> state" where
  "onaudioprocess btoa input st =
     (case wsRef st of
        None \<Rightarrow> st
      | Some n \<Rightarrow>
          if readyState (sockets st ! n) \<noteq> OPEN then st
          else (case frame_bytes input of
                  Inl e \<Rightarrow> st
                | Inr bytes \<Rightarrow> ws_send n (btoa bytes) st))"

subsection \<open>Engagement\<close>

text \<open>
  The effect body for \<^verbatim>\<open>isEngaged = true\<close> (\<^verbatim>\<open>initAudio\<close>), run in one step, so the
  component is still mounted when the audio set-up returns.
\<close>

definition initAudio :: "bool \<Rightarrow> state \<Rightarrow> state" where
  "initAudio audio_ok st =
     (case initAudioWorklet audio_ok st of
        (audioInitialized, st1) \<Rightarrow>
          if \<not> audioInitialized then setEngaged_false st1
          else connectWebSocket (isTalking st) st1)"

text \<open>The Engage/Disengage link.\<close>

definition onClick :: "bool \<Rightarrow> state \<Rightarrow> state" where
  "onClick audio_ok st =
     (if isEngaged st then setTalking False (setEngaged_false st)
      else initAudio audio_ok (st\<lparr>isEngaged := True\<rparr>))"

subsection \<open>Events\<close>

text \<open>
  What the platform delivers to the component. The guards of \<open>step\<close> are the
  platform's side: a timer fires only while pending, \<^verbatim>\<open>open\<close> comes to a
  connecting socket and makes it open, \<^verbatim>\<open>close\<close> comes once and makes the socket
  closed, a message comes to an open or closing socket, and an audio block
  comes only from a connected processor. An event that cannot occur leaves the
  state as it is.
\<close>

datatype event =
    Click bool
  | TimerFired nat
  | WsOpen nat bool
  | WsMessage nat "json option"
  | WsError nat
  | WsClose nat nat
  | AudioProcess "number list"
  | NeedData

record platform =
  btoa :: "byte list \<Rightarrow> string"
  atob :: "json option \<Rightarrow> byte list option"

fun step :: "platform \<Rightarrow> event \<Rightarrow> state \<Rightarrow> state" where
  "step P (Click audio_ok) st = onClick audio_ok st"
| "step P (TimerFired n) st =
     (if n < length (sockets st) \<and> connectionTimeout (sockets st ! n)
      then timeout_callback n (clearTimeout n st) else st)"
| "step P (WsOpen n granted) st =
     (if n < length (sockets st) \<and> readyState (sockets st ! n) = CONNECTING
      then onopen n granted (on_socket n (\<lambda>s. s\<lparr>readyState := OPEN\<rparr>) st) else st)"
| "step P (WsMessage n parsed) st =
     (if n < length (sockets st) \<and>
         (readyState (sockets st ! n) = OPEN \<or> readyState (sockets st ! n) = CLOSING)
      then onmessage (atob P) n parsed st else st)"
| "step P (WsError n) st =
     (if n < length (sockets st) then onerror n st else st)"
| "step P (WsClose n code) st =
     (if n < length (sockets st) \<and> readyState (sockets st ! n) \<noteq> CLOSED
      then onclose n code (on_socket n (\<lambda>s. s\<lparr>readyState := CLOSED\<rparr>) st) else st)"
| "step P (AudioProcess input) st =
     (if 0 < processors st then onaudioprocess (btoa P) input st else st)"
| "step P NeedData st =
     (if audioWorkletNodeRef st \<noteq> None then setTalking False st else st)"

fun run :: "platform \<Rightarrow> event list \<Rightarrow> state \<Rightarrow> state" where
  "run P [] st = st"
| "run P (e # es) st = run P es (step P e st)"

text \<open>Observations on the state.\<close>

definition attempts :: "state \<Rightarrow> nat" where
  "attempts st = length (sockets st)"

definition channel_open :: "state \<Rightarrow> bool" where
  "channel_open st =
     (case wsRef st of None \<Rightarrow> False | Some n \<Rightarrow> readyState (sockets st ! n) = OPEN)"

definition transcript_entry :: "json \<Rightarrow> entry" where
  "transcript_entry chunk =
     \<lparr>isMine = (get_prop chunk ''speaker'' = Inr (Some (JStr ''user''))),
      text' = (case get_prop chunk ''data'' of Inl e \<Rightarrow> None | Inr d \<Rightarrow> d)\<rparr>"

subsection \<open>The render queue\<close>

text \<open>
  Modelled from the spec: the worklet processor \<^verbatim>\<open>/audio-processor.js\<close> that
  receives the port messages is not among the sources. Following the render
  pipeline of the specification, a data message appends its block to the
  play-out queue (\<^verbatim>\<open>enqueue\<close>) and a stop message clears all queued audio
  (\<^verbatim>\<open>interrupt\<close>).
\<close>

fun worklet_receive :: "number list list \<Rightarrow> port_msg \<Rightarrow> number list list" where
  "worklet_receive queue Port_stop = []"
| "worklet_receive queue (Port_data audio) = queue @ [audio]"

definition queued :: "state \<Rightarrow> number list list" where
  "queued st =
     (case audioWorkletNodeRef st of
        None \<Rightarrow> []
      | Some posted \<Rightarrow> foldl worklet_receive [] posted)"

subsection \<open>Worked examples\<close>

text \<open>
  A platform and the states of the worked examples. The theorems below hold
  for every platform; the examples need a concrete one, and take the simplest:
  the text of a frame is its bytes as characters, and the decoder reads a
  string back into its character codes and throws on anything else.
\<close>

definition example_platform :: platform where
  "example_platform =
     \<lparr>btoa = map (\<lambda>b. char_of (unat b)),
      atob = (\<lambda>d. case d of Some (JStr s) \<Rightarrow> Some (map (\<lambda>c. of_nat (of_char c)) s)
                            | _ \<Rightarrow> None)\<rparr>"

text \<open>The session after Engage with a successful audio set-up.\<close>

definition connecting_state :: state where
  "connecting_state = run example_platform [Click True] initial"

text \<open>The same session once the socket is open and the microphone granted.\<close>

definition open_state :: state where
  "open_state = run example_platform [Click True, WsOpen 0 True] initial"

text \<open>
  The session of \<open>connecting_state\<close> after Disengage was clicked while the first
  attempt was still connecting, before any close event is delivered.
\<close>

definition disengaged_state :: state where
  "disengaged_state = run example_platform [Click True, Click True] initial"

text \<open>
  The session of \<open>open_state\<close> after its socket was closed abnormally: still
  engaged, the capture graph alive, the current socket closed.
\<close>

definition closed_state :: state where
  "closed_state = run example_platform [Click True, WsOpen 0 True, WsClose 0 1006] initial"

text \<open>
  From \<open>closed_state\<close>, the user disengages and engages again, and the socket of
  the new attempt opens.
\<close>

definition reopened_state :: state where
  "reopened_state =
     run example_platform [Click True, Click True, WsOpen 1 True] closed_state"

section \<open>The example states, evaluated\<close>

lemmas handler_defs = onClick_def initAudio_def initAudioWorklet_def connectWebSocket_def
  onopen_def initMicrophone_def clearTimeout_def on_socket_def setTalking_def close_context_def
  cleanup_def ws_close_def setEngaged_false_def onclose_def onerror_def timeout_callback_def

lemma connecting_state_eq:
  "connecting_state = \<lparr>messages = [], isTalking = False, isEngaged = True,
     sockets = [\<lparr>readyState = CONNECTING, connectionTimeout = True,
                 captured_isTalking = False, sent = []\<rparr>],
     wsRef = Some 0, audioContextRef = Some Ctx_running, audioWorkletNodeRef = Some [],
     processors = 0\<rparr>"
  by (simp add: connecting_state_def initial_def handler_defs)

lemma open_state_eq:
  "open_state = \<lparr>messages = [], isTalking = False, isEngaged = True,
     sockets = [\<lparr>readyState = OPEN, connectionTimeout = False,
                 captured_isTalking = False, sent = []\<rparr>],
     wsRef = Some 0, audioContextRef = Some Ctx_running, audioWorkletNodeRef = Some [],
     processors = 1\<rparr>"
  by (simp add: open_state_def initial_def handler_defs)

section \<open>Properties of the codec\<close>

subsection \<open>Closed forms of the iterations\<close>

lemma word_cat_le_pair: "word_cat (ucast (drop_bit 8 v) :: byte) (ucast v :: byte) = (v :: int16)"
  by (rule bit_word_eqI) (auto simp: bit_simps)

lemma ucast_word_cat_lo: "(ucast (word_cat (hi :: byte) (lo :: byte) :: int16) :: byte) = lo"
  by (rule bit_word_eqI) (auto simp: bit_simps)

lemma ucast_word_cat_hi: "(ucast (drop_bit 8 (word_cat (hi :: byte) (lo :: byte) :: int16)) :: byte) = hi"
  by (rule bit_word_eqI) (auto simp: bit_simps)

declare floatToPcm16_loop.simps [simp del]
declare pcm16ToFloat_loop.simps [simp del]
declare forEach_setInt16.simps [simp del]

lemma floatToPcm16_loop_eq:
  "length out = length input \<Longrightarrow> i \<le> length input \<Longrightarrow>
   floatToPcm16_loop input i out = take i out @ map sample_to_pcm16 (drop i input)"
proof (induction input i out rule: floatToPcm16_loop.induct)
  case (1 input i out)
  show ?case
  proof (cases "i < length input")
    case True
    let ?out = "out[i := sample_to_pcm16 (input ! i)]"
    have unf: "floatToPcm16_loop input i out = floatToPcm16_loop input (i + 1) ?out"
      using True by (subst floatToPcm16_loop.simps) simp
    have ih: "floatToPcm16_loop input (i + 1) ?out =
              take (i + 1) ?out @ map sample_to_pcm16 (drop (i + 1) input)"
      using True "1.prems" by (intro "1.IH") auto
    have tk: "take (i + 1) ?out = take i out @ [sample_to_pcm16 (input ! i)]"
      using True "1.prems" by (simp add: take_Suc_conv_app_nth)
    have dr: "drop i input = input ! i # drop (i + 1) input"
      using True by (simp add: Cons_nth_drop_Suc)
    show ?thesis by (simp only: unf ih tk dr list.map append_assoc append.simps)
  next
    case False
    then show ?thesis using "1.prems"
      by (subst floatToPcm16_loop.simps) simp
  qed
qed

lemma floatToPcm16_map: "floatToPcm16 input = map sample_to_pcm16 input"
  by (simp add: floatToPcm16_def floatToPcm16_loop_eq)

lemma pcm16ToFloat_loop_eq:
  "length float32 * 2 \<le> length buffer \<Longrightarrow> i \<le> length float32 \<Longrightarrow>
   pcm16ToFloat_loop buffer i float32 =
     Inr (take i float32 @ map (\<lambda>j. decode_sample (int16_at buffer j)) [i..<length float32])"
proof (induction buffer i float32 rule: pcm16ToFloat_loop.induct)
  case (1 buffer i float32)
  show ?case
  proof (cases "i < length float32")
    case True
    let ?v = "int16_at buffer i"
    let ?f = "float32[i := decode_sample ?v]"
    have g: "getInt16 buffer (i * 2) = Inr ?v"
      using True "1.prems" by (simp add: getInt16_def int16_at_def)
    have unf: "pcm16ToFloat_loop buffer i float32 = pcm16ToFloat_loop buffer (i + 1) ?f"
      using True g by (subst pcm16ToFloat_loop.simps) (simp add: decode_sample_def)
    have ih: "pcm16ToFloat_loop buffer (i + 1) ?f =
              Inr (take (i + 1) ?f @ map (\<lambda>j. decode_sample (int16_at buffer j)) [i + 1..<length ?f])"
      using "1.IH"[OF True g] True "1.prems" by (simp add: decode_sample_def)
    have tk: "take (i + 1) ?f = take i float32 @ [decode_sample ?v]"
      using True by (simp add: take_Suc_conv_app_nth)
    have up: "[i..<length float32] = i # [i + 1..<length float32]"
      using True by (simp add: upt_conv_Cons)
    show ?thesis by (simp only: unf ih tk up length_list_update list.map append_assoc append.simps)
  next
    case False
    then show ?thesis using "1.prems"
      by (subst pcm16ToFloat_loop.simps) simp
  qed
qed

lemma pcm16ToFloat_map:
  "pcm16ToFloat buffer =
     Inr (map (\<lambda>j. decode_sample (int16_at buffer j)) [0..<length buffer div 2])"
  by (simp add: pcm16ToFloat_def pcm16ToFloat_loop_eq)

lemma forEach_setInt16_eq:
  "length buffer = length pcm16 * 2 \<Longrightarrow> index \<le> length pcm16 \<Longrightarrow>
   forEach_setInt16 pcm16 index buffer =
     Inr (take (index * 2) buffer @ concat (map le_pair (drop index pcm16)))"
proof (induction pcm16 index buffer rule: forEach_setInt16.induct)
  case (1 pcm16 index buffer)
  show ?case
  proof (cases "index < length pcm16")
    case True
    let ?v = "pcm16 ! index"
    let ?b = "buffer[index * 2 := ucast ?v, index * 2 + 1 := ucast (drop_bit 8 ?v)]"
    have s: "setInt16 buffer (index * 2) ?v = Inr ?b"
      using True "1.prems" by (simp add: setInt16_def)
    have unf: "forEach_setInt16 pcm16 index buffer = forEach_setInt16 pcm16 (index + 1) ?b"
      using True s by (subst forEach_setInt16.simps) simp
    have ih: "forEach_setInt16 pcm16 (index + 1) ?b =
              Inr (take ((index + 1) * 2) ?b @ concat (map le_pair (drop (index + 1) pcm16)))"
      using True "1.prems" s by (intro "1.IH"[of ?b]) auto
    have tk: "take ((index + 1) * 2) ?b = take (index * 2) buffer @ le_pair ?v"
    proof -
      have "(index + 1) * 2 = Suc (Suc (index * 2))" by simp
      moreover have "Suc (index * 2) < length buffer" using True "1.prems" by simp
      ultimately show ?thesis
        by (simp add: take_Suc_conv_app_nth le_pair_def)
    qed
    have dr: "drop index pcm16 = ?v # drop (index + 1) pcm16"
      using True by (simp add: Cons_nth_drop_Suc)
    show ?thesis by (simp only: unf ih tk dr list.map concat.simps append_assoc)
  next
    case False
    then show ?thesis using "1.prems"
      by (subst forEach_setInt16.simps) simp
  qed
qed

lemma frame_bytes_eq:
  "frame_bytes input = Inr (concat (map le_pair (floatToPcm16 input)))"
  by (simp add: frame_bytes_def forEach_setInt16_eq)

lemma clamp_scale_range: "- 32768 \<le> clamp_scale r \<and> clamp_scale r \<le> 32767"
  by (auto simp: clamp_scale_def Let_def min_def max_def)

lemma js_trunc_mono_bounds:
  "of_int a \<le> r \<Longrightarrow> r \<le> of_int b \<Longrightarrow> a \<le> 0 \<Longrightarrow> 0 \<le> b \<Longrightarrow> a \<le> js_trunc r \<and> js_trunc r \<le> b"
  unfolding js_trunc_def by (auto simp: le_floor_iff floor_le_iff le_ceiling_iff ceiling_le_iff; linarith)

lemma js_trunc_clamp_scale_range:
  "- 32768 \<le> js_trunc (clamp_scale r) \<and> js_trunc (clamp_scale r) \<le> 32767"
  using js_trunc_mono_bounds[of "- 32768" "clamp_scale r" 32767] clamp_scale_range[of r]
  by simp

lemma sint_word_of_int_16:
  "- 32768 \<le> k \<Longrightarrow> k \<le> 32767 \<Longrightarrow> sint (word_of_int k :: int16) = k"
  by (simp add: sint_sbintrunc' signed_take_bit_int_eq_self)

lemma sample_to_pcm16_Fin:
  "sample_to_pcm16 (Fin r) = word_of_int (js_trunc (clamp_scale r))"
  by (simp add: sample_to_pcm16_def clamp_scale_def Let_def)

lemma sint_sample_to_pcm16_Fin:
  "sint (sample_to_pcm16 (Fin r)) = js_trunc (clamp_scale r)"
  using js_trunc_clamp_scale_range[of r]
  by (simp add: sample_to_pcm16_Fin sint_word_of_int_16)

lemma sample_to_pcm16_PosInf: "sample_to_pcm16 PosInf = 32767"
  by (simp add: sample_to_pcm16_def js_trunc_def)

lemma sample_to_pcm16_NegInf: "sample_to_pcm16 NegInf = - 32768"
  by (simp add: sample_to_pcm16_def js_trunc_def)

lemma sample_to_pcm16_NaN: "sample_to_pcm16 NaN = 0"
  by (simp add: sample_to_pcm16_def)

lemma sint_int16_range: "- 32768 \<le> sint (w :: int16) \<and> sint w \<le> 32767"
  using sint_range_size[of w] by (simp add: word_size)

lemma roundtrip_sample:
  "sample_to_pcm16 (decode_sample w) = (if 0 < sint w then w - 1 else w)"
proof -
  define k where "k = sint w"
  have kr: "- 32768 \<le> k" "k \<le> 32767" using sint_int16_range[of w] by (simp_all add: k_def)
  define r :: real where "r = of_int k / 32768"
  have r1: "- 1 \<le> r" "r \<le> 1" using kr by (simp_all add: r_def field_simps)
  have w: "word_of_int k = w" by (simp add: k_def)
  show ?thesis
  proof (cases "0 < k")
    case True
    then have "\<not> r < 0" by (simp add: r_def field_simps)
    then have cs: "clamp_scale r = of_int k * 32767 / 32768"
      using r1 by (simp add: clamp_scale_def Let_def r_def)
    have "\<lfloor>(of_int k * 32767 / 32768 :: real)\<rfloor> = k - 1"
    proof (rule floor_unique)
      show "of_int (k - 1) \<le> (of_int k * 32767 / 32768 :: real)"
        using True kr by (simp add: field_simps)
      show "(of_int k * 32767 / 32768 :: real) < of_int (k - 1) + 1"
        using True kr by (simp add: field_simps)
    qed
    moreover have "\<not> (of_int k * 32767 / 32768 :: real) < 0" using True by (simp add: field_simps)
    ultimately have "js_trunc (clamp_scale r) = k - 1"
      by (simp add: js_trunc_def cs)
    then have "sample_to_pcm16 (Fin r) = word_of_int (k - 1)"
      by (simp add: sample_to_pcm16_Fin)
    also have "\<dots> = w - 1" using w by simp
    finally show ?thesis using True by (simp add: decode_sample_def r_def k_def)
  next
    case False
    have cs: "clamp_scale r = of_int k"
    proof (cases "k = 0")
      case True then show ?thesis by (simp add: clamp_scale_def r_def)
    next
      case False
      with \<open>\<not> 0 < k\<close> have "r < 0" by (simp add: r_def field_simps)
      then show ?thesis using r1 by (simp add: clamp_scale_def Let_def r_def)
    qed
    have "js_trunc (clamp_scale r) = k"
      by (simp add: cs js_trunc_def)
    then have "sample_to_pcm16 (Fin r) = w" using w
      by (simp add: sample_to_pcm16_Fin)
    then show ?thesis using False by (simp add: decode_sample_def r_def k_def)
  qed
qed

lemma js_trunc_err:
  "\<bar>of_int (js_trunc x) - x\<bar> < 1 \<and> (0 \<le> x \<longrightarrow> of_int (js_trunc x) \<le> x) \<and> (x < 0 \<longrightarrow> x \<le> of_int (js_trunc x))"
  unfolding js_trunc_def by (auto; linarith)

lemma quantization_error:
  assumes "- 1 \<le> r" "r \<le> 1"
  shows "\<bar>of_int (sint (sample_to_pcm16 (Fin r))) / 32768 - r\<bar> < 2 / 32768"
proof -
  define t where "t = js_trunc (clamp_scale r)"
  have s: "sint (sample_to_pcm16 (Fin r)) = t" by (simp add: t_def sint_sample_to_pcm16_Fin)
  show ?thesis
  proof (cases "r < 0")
    case True
    then have cs: "clamp_scale r = r * 32768" using assms by (simp add: clamp_scale_def Let_def)
    have "\<bar>of_int t - r * 32768\<bar> < 1" using js_trunc_err[of "r * 32768"] by (simp add: t_def cs)
    then show ?thesis unfolding s by (simp add: field_simps abs_less_iff)
  next
    case False
    then have cs: "clamp_scale r = r * 32767" using assms by (simp add: clamp_scale_def Let_def)
    have "0 \<le> r * 32767" using False by simp
    then have "of_int t \<le> r * 32767" "r * 32767 - of_int t < 1"
      using js_trunc_err[of "r * 32767"] by (simp_all add: t_def cs abs_less_iff)
    then show ?thesis unfolding s using assms False by (simp add: field_simps abs_less_iff)
  qed
qed

lemma quantization_error_neg:
  assumes "- 1 \<le> r" "r \<le> 0"
  shows "\<bar>of_int (sint (sample_to_pcm16 (Fin r))) / 32768 - r\<bar> < 1 / 32768"
proof -
  define t where "t = js_trunc (clamp_scale r)"
  have s: "sint (sample_to_pcm16 (Fin r)) = t" by (simp add: t_def sint_sample_to_pcm16_Fin)
  have cs: "clamp_scale r = r * 32768" using assms by (auto simp add: clamp_scale_def Let_def)
  have "\<bar>of_int t - r * 32768\<bar> < 1" using js_trunc_err[of "r * 32768"] by (simp add: t_def cs)
  then show ?thesis unfolding s by (simp add: field_simps abs_less_iff)
qed

lemma int16_at_concat:
  "j < length ws \<Longrightarrow> int16_at (concat (map le_pair ws)) j = ws ! j"
proof (induction ws arbitrary: j)
  case Nil then show ?case by simp
next
  case (Cons w ws)
  show ?case
  proof (cases j)
    case 0
    then show ?thesis by (simp add: int16_at_def le_pair_def word_cat_le_pair)
  next
    case (Suc j')
    then have "int16_at (concat (map le_pair (w # ws))) j = int16_at (concat (map le_pair ws)) j'"
      by (simp add: int16_at_def le_pair_def)
    then show ?thesis using Cons Suc by simp
  qed
qed

lemma le_pair_int16_at:
  "Suc (j * 2) < length b \<Longrightarrow> le_pair (int16_at b j) = [b ! (j * 2), b ! (j * 2 + 1)]"
  by (simp add: le_pair_def int16_at_def ucast_word_cat_lo ucast_word_cat_hi)

lemma concat_le_pair_int16_at:
  "n * 2 \<le> length b \<Longrightarrow> concat (map (\<lambda>j. le_pair (int16_at b j)) [0..<n]) = take (n * 2) b"
proof (induction n)
  case 0 then show ?case by simp
next
  case (Suc n)
  then have lt: "Suc (n * 2) < length b" by simp
  have "take (Suc n * 2) b = take (n * 2) b @ [b ! (n * 2), b ! (n * 2 + 1)]"
    using lt by (simp add: take_Suc_conv_app_nth)
  then show ?case using Suc lt by (simp add: le_pair_int16_at)
qed

subsection \<open>Decoding, and encoding after decoding\<close>

lemma int16_at_butlast:
  "j < length buffer div 2 \<Longrightarrow> odd (length buffer) \<Longrightarrow> int16_at (butlast buffer) j = int16_at buffer j"
proof -
  assume a: "j < length buffer div 2" "odd (length buffer)"
  then have "j * 2 + 1 < length buffer - 1" by presburger
  then show ?thesis by (simp add: int16_at_def nth_butlast)
qed

lemma pcm16ToFloat_butlast:
  assumes "odd (length buffer)"
  shows "pcm16ToFloat (butlast buffer) = pcm16ToFloat buffer"
proof -
  have "(length buffer - 1) div 2 = length buffer div 2" using assms by presburger
  then show ?thesis using assms
    by (simp add: pcm16ToFloat_map int16_at_butlast)
qed

text \<open>
  Claim C5. For every byte buffer, \<^verbatim>\<open>pcm16ToFloat\<close> returns normally; sample
  \<open>j\<close> of the result is the little-endian signed 16-bit value at bytes \<open>2j\<close>
  and \<open>2j+1\<close> divided by 32768, there are \<open>length div 2\<close> samples, and a buffer
  of odd length decodes as the buffer without its last byte does.
\<close>

theorem pcm16ToFloat_decodes:
  "pcm16ToFloat buffer =
     Inr (map (\<lambda>j. Fin (of_int (sint (int16_at buffer j)) / 32768)) [0..<length buffer div 2])
   \<and> (odd (length buffer) \<longrightarrow> pcm16ToFloat buffer = pcm16ToFloat (butlast buffer))"
  using pcm16ToFloat_map[of buffer] pcm16ToFloat_butlast[of buffer]
  by (simp add: decode_sample_def)

lemma upt_2: "[0..<2] = [0, Suc 0]" "[0..<Suc 0] = [0]"
  by (simp_all add: upt_rec)

theorem pcm16ToFloat_decodes_witness:
  "pcm16ToFloat [0, 128, 255] = Inr [Fin (- 1)] \<and> pcm16ToFloat [0, 128, 255] = pcm16ToFloat [0, 128]"
  using pcm16ToFloat_decodes[of "[0, 128, 255]"]
  by (simp add: int16_at_def word_cat_eq pcm16ToFloat_map decode_sample_def)

lemma encode_decode_general:
  "frame_bytes (map (\<lambda>j. decode_sample (int16_at b j)) [0..<n]) =
     Inr (concat (map (\<lambda>j. le_pair (if 0 < sint (int16_at b j) then int16_at b j - 1 else int16_at b j)) [0..<n]))"
  by (simp add: frame_bytes_eq floatToPcm16_map roundtrip_sample o_def)

text \<open>
  Claim C2, as amended. For every byte buffer of even length, decoding
  succeeds, and encoding the decoded samples gives a buffer of the same layout
  in which a sample of value \<open>v \<le> 0\<close> is reproduced and a sample of value
  \<open>v > 0\<close> comes back as \<open>v - 1\<close>; so a buffer without positive samples is
  returned exactly.
\<close>

theorem encode_decode_even:
  assumes "even (length b)"
  shows "\<exists>float32. pcm16ToFloat b = Inr float32 \<and>
           frame_bytes float32 =
             Inr (concat (map (\<lambda>j. le_pair (if 0 < sint (int16_at b j)
                                           then int16_at b j - 1 else int16_at b j))
                           [0..<length b div 2])) \<and>
           ((\<forall>j < length b div 2. sint (int16_at b j) \<le> 0) \<longrightarrow> frame_bytes float32 = Inr b)"
proof -
  let ?xs = "map (\<lambda>j. decode_sample (int16_at b j)) [0..<length b div 2]"
  have d: "pcm16ToFloat b = Inr ?xs" by (rule pcm16ToFloat_map)
  have e: "frame_bytes ?xs =
             Inr (concat (map (\<lambda>j. le_pair (if 0 < sint (int16_at b j)
                                           then int16_at b j - 1 else int16_at b j))
                           [0..<length b div 2]))"
    by (rule encode_decode_general)
  have "frame_bytes ?xs = Inr b" if nonpos: "\<forall>j < length b div 2. sint (int16_at b j) \<le> 0"
  proof -
    have "map (\<lambda>j. le_pair (if 0 < sint (int16_at b j) then int16_at b j - 1 else int16_at b j))
            [0..<length b div 2] = map (\<lambda>j. le_pair (int16_at b j)) [0..<length b div 2]"
      using nonpos by (intro map_cong) auto
    then have "frame_bytes ?xs = Inr (concat (map (\<lambda>j. le_pair (int16_at b j)) [0..<length b div 2]))"
      by (simp only: e)
    moreover have "length b div 2 * 2 = length b" using assms by presburger
    ultimately show ?thesis
      using concat_le_pair_int16_at[of "length b div 2" b] by simp
  qed
  with d e show ?thesis by blast
qed

theorem encode_decode_even_witness:
  "even (length [0, 128, 0, 0 :: byte]) \<and>
   pcm16ToFloat [0, 128, 0, 0] = Inr [Fin (- 1), Fin 0] \<and>
   frame_bytes [Fin (- 1), Fin 0] = Inr [0, 128, 0, 0]"
proof -
  have h: "even (length [0, 128, 0, 0 :: byte])" by simp
  have np: "\<forall>j < length [0, 128, 0, 0 :: byte] div 2. sint (int16_at [0, 128, 0, 0] j) \<le> 0"
    by (auto simp: less_Suc_eq int16_at_def word_cat_eq)
  have d: "pcm16ToFloat [0, 128, 0, 0] = Inr [Fin (- 1), Fin 0]"
    by (simp add: pcm16ToFloat_map decode_sample_def int16_at_def word_cat_eq upt_2)
  from encode_decode_even[OF h] np d show ?thesis by auto
qed

text \<open>
  The claim as stated fails on the buffer of the single sample 1: it decodes
  to \<open>1/32768\<close>, whose product with 32767 is below 1 and is stored as 0.
\<close>

theorem encode_decode_counterexample:
  "\<not> (\<exists>float32. pcm16ToFloat [1, 0] = Inr float32 \<and> frame_bytes float32 = Inr [1, 0])"
  by (simp add: pcm16ToFloat_map frame_bytes_eq floatToPcm16_map roundtrip_sample int16_at_def
      word_cat_eq le_pair_def upt_2)

subsection \<open>Encoding, and decoding after encoding\<close>

lemma length_concat_le_pair: "length (concat (map le_pair ws)) = length ws * 2"
  by (induction ws) (simp_all add: le_pair_def)

lemma sint_sample_to_pcm16:
  "sint (sample_to_pcm16 x) =
     (case x of Fin r \<Rightarrow> js_trunc (clamp_scale r) | PosInf \<Rightarrow> 32767
      | NegInf \<Rightarrow> - 32768 | NaN \<Rightarrow> 0)"
  by (cases x)
     (simp_all add: sint_sample_to_pcm16_Fin sample_to_pcm16_PosInf sample_to_pcm16_NegInf
        sample_to_pcm16_NaN)

lemma onaudioprocess_open:
  "wsRef st = Some n \<Longrightarrow> readyState (sockets st ! n) = OPEN \<Longrightarrow>
   onaudioprocess enc input st = ws_send n (enc (concat (map le_pair (floatToPcm16 input)))) st"
  by (simp add: onaudioprocess_def frame_bytes_eq)

lemma sent_ws_send:
  "n < length (sockets st) \<Longrightarrow> sent (sockets (ws_send n frame st) ! n) = sent (sockets st ! n) @ [frame]"
  by (simp add: ws_send_def on_socket_def)

text \<open>
  Claim C3, as amended. For every sample array the encoding of a block
  succeeds. Each sample is clamped to \<open>[-1, 1]\<close>, scaled by 32768 when negative
  and by 32767 otherwise, and truncated towards zero (not floored); the
  infinities are clamped like any other out-of-range input, and NaN gives 0.
  The stored value lies in the signed 16-bit range, so the store does not
  wrap. The bytes are the little-endian pairs of the samples in order, and on
  an open channel the frame sent is their text encoding.
\<close>

theorem encode_block:
  "\<exists>bytes. frame_bytes input = Inr bytes \<and>
     bytes = concat (map le_pair (floatToPcm16 input)) \<and>
     length (floatToPcm16 input) = length input \<and>
     (\<forall>i < length input.
        sint (floatToPcm16 input ! i) =
          (case input ! i of Fin r \<Rightarrow> js_trunc (clamp_scale r) | PosInf \<Rightarrow> 32767
           | NegInf \<Rightarrow> - 32768 | NaN \<Rightarrow> 0) \<and>
        - 32768 \<le> sint (floatToPcm16 input ! i) \<and> sint (floatToPcm16 input ! i) \<le> 32767) \<and>
     (\<forall>n. wsRef st = Some n \<and> n < length (sockets st) \<and> readyState (sockets st ! n) = OPEN \<longrightarrow>
        sent (sockets (onaudioprocess enc input st) ! n) = sent (sockets st ! n) @ [enc bytes])"
proof -
  have a: "frame_bytes input = Inr (concat (map le_pair (floatToPcm16 input)))"
    by (rule frame_bytes_eq)
  have b: "length (floatToPcm16 input) = length input"
    by (simp add: floatToPcm16_map)
  have c: "sint (floatToPcm16 input ! i) =
          (case input ! i of Fin r \<Rightarrow> js_trunc (clamp_scale r) | PosInf \<Rightarrow> 32767
           | NegInf \<Rightarrow> - 32768 | NaN \<Rightarrow> 0)" if "i < length input" for i
    using that by (simp add: floatToPcm16_map sint_sample_to_pcm16)
  have d: "- 32768 \<le> sint (floatToPcm16 input ! i) \<and> sint (floatToPcm16 input ! i) \<le> 32767" for i
    by (rule sint_int16_range)
  have e: "sent (sockets (onaudioprocess enc input st) ! n) =
           sent (sockets st ! n) @ [enc (concat (map le_pair (floatToPcm16 input)))]"
    if "wsRef st = Some n" "n < length (sockets st)" "readyState (sockets st ! n) = OPEN" for n
    using that by (simp add: onaudioprocess_open sent_ws_send)
  from a b c d e show ?thesis by blast
qed

theorem encode_block_witness:
  "frame_bytes [Fin 2, NaN, Fin (1 / 2)] = Inr [255, 127, 0, 0, 255, 63] \<and>
   sent (sockets (onaudioprocess (btoa example_platform) [Fin 2, NaN, Fin (1 / 2)] open_state) ! 0) =
     [btoa example_platform [255, 127, 0, 0, 255, 63]]"
  using encode_block[of "[Fin 2, NaN, Fin (1 / 2)]" open_state "btoa example_platform"]
  by (simp add: floatToPcm16_map sample_to_pcm16_def js_trunc_def le_pair_def open_state_eq
      example_platform_def)

text \<open>
  The claim as stated, with \<open>floor\<close>, fails on the sample \<open>-3/65536\<close>: the
  scaled value is \<open>-3/2\<close>, which the code stores as \<open>-1\<close> and \<open>floor\<close> takes
  to \<open>-2\<close>.
\<close>

theorem encode_block_counterexample:
  "floatToPcm16 [Fin (- 3 / 65536)] = [- 1] \<and> spec_encode_sample (- 3 / 65536) = - 2"
  by (simp add: floatToPcm16_map sample_to_pcm16_def js_trunc_def spec_encode_sample_def clamp_scale_def)

text \<open>
  Claim C4, as amended. For every sample array with all values in \<open>[-1, 1]\<close>,
  encoding and then decoding succeeds and changes no sample by two
  quantization steps (\<open>2/32768\<close>) or more, and no sample \<open>\<le> 0\<close> by one step
  or more.
\<close>

theorem decode_encode_error:
  assumes "\<forall>x \<in> set s. \<exists>r. x = Fin r \<and> - 1 \<le> r \<and> r \<le> 1"
  shows "\<exists>bytes float32. frame_bytes s = Inr bytes \<and> pcm16ToFloat bytes = Inr float32 \<and>
           length float32 = length s \<and>
           (\<forall>i < length s. \<exists>r q. s ! i = Fin r \<and> float32 ! i = Fin q \<and>
               \<bar>q - r\<bar> < 2 / 32768 \<and> (r \<le> 0 \<longrightarrow> \<bar>q - r\<bar> < 1 / 32768))"
proof -
  let ?bytes = "concat (map le_pair (floatToPcm16 s))"
  let ?out = "map (\<lambda>j. decode_sample (int16_at ?bytes j)) [0..<length s]"
  have e: "frame_bytes s = Inr ?bytes" by (rule frame_bytes_eq)
  have "length ?bytes = length s * 2"
    by (simp only: length_concat_le_pair floatToPcm16_map length_map)
  then have len: "length ?bytes div 2 = length s" by simp
  have d: "pcm16ToFloat ?bytes = Inr ?out"
    using pcm16ToFloat_map[of ?bytes] by (simp only: len)
  have "\<exists>r q. s ! i = Fin r \<and> ?out ! i = Fin q \<and>
          \<bar>q - r\<bar> < 2 / 32768 \<and> (r \<le> 0 \<longrightarrow> \<bar>q - r\<bar> < 1 / 32768)" if i: "i < length s" for i
  proof -
    from assms i obtain r where r: "s ! i = Fin r" "- 1 \<le> r" "r \<le> 1"
      using nth_mem by blast
    have "int16_at ?bytes i = floatToPcm16 s ! i"
      using i by (intro int16_at_concat) (simp add: floatToPcm16_map)
    then have "int16_at ?bytes i = sample_to_pcm16 (Fin r)"
      using i r by (simp add: floatToPcm16_map)
    then have o: "?out ! i = Fin (of_int (sint (sample_to_pcm16 (Fin r))) / 32768)"
      using i by (simp add: decode_sample_def)
    let ?q = "of_int (sint (sample_to_pcm16 (Fin r))) / 32768 :: real"
    have "s ! i = Fin r \<and> ?out ! i = Fin ?q \<and> \<bar>?q - r\<bar> < 2 / 32768 \<and>
          (r \<le> 0 \<longrightarrow> \<bar>?q - r\<bar> < 1 / 32768)"
      using r o quantization_error[of r] quantization_error_neg[of r] by blast
    then show ?thesis by blast
  qed
  with e d show ?thesis by (intro exI[of _ ?bytes] exI[of _ ?out]) simp
qed

theorem decode_encode_error_witness:
  "frame_bytes [Fin (3 / 8)] = Inr [255, 47] \<and> pcm16ToFloat [255, 47] = Inr [Fin (12287 / 32768)] \<and>
   \<bar>12287 / 32768 - 3 / 8 :: real\<bar> < 2 / 32768"
proof -
  have h: "\<forall>x \<in> set [Fin (3 / 8)]. \<exists>r. x = Fin r \<and> - 1 \<le> r \<and> r \<le> 1"
    by (auto intro!: exI[of _ "3 / 8"])
  have e: "frame_bytes [Fin (3 / 8)] = Inr [255, 47]"
    by (simp add: frame_bytes_eq floatToPcm16_map sample_to_pcm16_def js_trunc_def le_pair_def)
  have d: "pcm16ToFloat [255, 47] = Inr [Fin (12287 / 32768)]"
    by (simp add: pcm16ToFloat_map decode_sample_def int16_at_def word_cat_eq upt_2)
  from decode_encode_error[OF h] e d show ?thesis by auto
qed

text \<open>
  The bound of one step fails on the sample \<open>65535/65536\<close>: it is stored as
  32766 and read back as \<open>32766/32768\<close>, one and a half steps away.
\<close>

theorem decode_encode_error_counterexample:
  "frame_bytes [Fin (65535 / 65536)] = Inr [254, 127] \<and>
   pcm16ToFloat [254, 127] = Inr [Fin (32766 / 32768)] \<and>
   \<not> \<bar>32766 / 32768 - 65535 / 65536 :: real\<bar> \<le> 1 / 32768"
  by (simp add: frame_bytes_eq floatToPcm16_map sample_to_pcm16_def js_trunc_def le_pair_def
      pcm16ToFloat_map decode_sample_def int16_at_def word_cat_eq upt_2)

section \<open>Properties of the session\<close>

lemma run_append: "run P (xs @ ys) st = run P ys (run P xs st)"
  by (induction xs arbitrary: st) simp_all

subsection \<open>Fields that the socket operations leave alone\<close>

lemma on_socket_fields [simp]:
  "messages (on_socket n f st) = messages st"
  "isTalking (on_socket n f st) = isTalking st"
  "isEngaged (on_socket n f st) = isEngaged st"
  "wsRef (on_socket n f st) = wsRef st"
  "audioContextRef (on_socket n f st) = audioContextRef st"
  "audioWorkletNodeRef (on_socket n f st) = audioWorkletNodeRef st"
  "processors (on_socket n f st) = processors st"
  "length (sockets (on_socket n f st)) = length (sockets st)"
  by (simp_all add: on_socket_def)

lemma on_socket_nth:
  "m < length (sockets st) \<Longrightarrow>
   sockets (on_socket n f st) ! m = (if m = n then f (sockets st ! m) else sockets st ! m)"
  by (simp add: on_socket_def nth_list_update)

lemma cleanup_fields [simp]:
  "messages (cleanup st) = messages st"
  "isTalking (cleanup st) = isTalking st"
  "isEngaged (cleanup st) = isEngaged st"
  "wsRef (cleanup st) = wsRef st"
  "audioWorkletNodeRef (cleanup st) = audioWorkletNodeRef st"
  "length (sockets (cleanup st)) = length (sockets st)"
  by (simp_all add: cleanup_def ws_close_def close_context_def Let_def split: option.splits)

lemma cleanup_timer:
  "m < length (sockets st) \<Longrightarrow>
   connectionTimeout (sockets (cleanup st) ! m) = connectionTimeout (sockets st ! m)"
  by (simp add: cleanup_def ws_close_def close_context_def Let_def on_socket_nth split: option.splits)

lemma setEngaged_false_fields [simp]:
  "messages (setEngaged_false st) = messages st"
  "isTalking (setEngaged_false st) = isTalking st"
  "\<not> isEngaged (setEngaged_false st)"
  "wsRef (setEngaged_false st) = wsRef st"
  "audioWorkletNodeRef (setEngaged_false st) = audioWorkletNodeRef st"
  "length (sockets (setEngaged_false st)) = length (sockets st)"
  by (simp_all add: setEngaged_false_def)

lemma setEngaged_false_timer:
  "m < length (sockets st) \<Longrightarrow>
   connectionTimeout (sockets (setEngaged_false st) ! m) = connectionTimeout (sockets st ! m)"
  by (simp add: setEngaged_false_def cleanup_timer)

lemma setTalking_fields [simp]:
  "messages (setTalking b st) = messages st"
  "isTalking (setTalking b st) = b"
  "isEngaged (setTalking b st) = isEngaged st"
  "wsRef (setTalking b st) = wsRef st"
  "sockets (setTalking b st) = sockets st"
  "audioContextRef (setTalking b st) = audioContextRef st"
  "audioWorkletNodeRef (setTalking b st) = audioWorkletNodeRef st"
  "processors (setTalking b st) = processors st"
  by (simp_all add: setTalking_def)

lemma clearTimeout_fields [simp]:
  "messages (clearTimeout n st) = messages st"
  "isTalking (clearTimeout n st) = isTalking st"
  "isEngaged (clearTimeout n st) = isEngaged st"
  "wsRef (clearTimeout n st) = wsRef st"
  "audioContextRef (clearTimeout n st) = audioContextRef st"
  "audioWorkletNodeRef (clearTimeout n st) = audioWorkletNodeRef st"
  "processors (clearTimeout n st) = processors st"
  "length (sockets (clearTimeout n st)) = length (sockets st)"
  by (simp_all add: clearTimeout_def)

lemma clearTimeout_timer:
  "m < length (sockets st) \<Longrightarrow>
   connectionTimeout (sockets (clearTimeout n st) ! m) =
     (m \<noteq> n \<and> connectionTimeout (sockets st ! m))"
  by (simp add: clearTimeout_def on_socket_nth)

lemma onclose_abnormal:
  "code \<noteq> 1000 \<Longrightarrow> onclose n code st = setTalking False (clearTimeout n st)"
  by (simp add: onclose_def)

lemma onclose_normal:
  "onclose n 1000 st = setEngaged_false (setTalking False (clearTimeout n st))"
  by (simp add: onclose_def)

lemma onclose_fields:
  assumes "n < length (sockets st)"
  shows "length (sockets (onclose n code st)) = length (sockets st)"
    and "wsRef (onclose n code st) = wsRef st"
    and "\<not> isTalking (onclose n code st)"
    and "\<not> connectionTimeout (sockets (onclose n code st) ! n)"
    and "m < length (sockets st) \<Longrightarrow> connectionTimeout (sockets (onclose n code st) ! m) \<Longrightarrow>
           connectionTimeout (sockets st ! m)"
    and "code \<noteq> 1000 \<Longrightarrow> isEngaged (onclose n code st) = isEngaged st"
    and "code = 1000 \<Longrightarrow> \<not> isEngaged (onclose n code st)"
proof -
  show "length (sockets (onclose n code st)) = length (sockets st)"
    by (cases "code = 1000") (simp_all add: onclose_normal onclose_abnormal)
  show "wsRef (onclose n code st) = wsRef st"
    by (cases "code = 1000") (simp_all add: onclose_normal onclose_abnormal)
  show "\<not> isTalking (onclose n code st)"
    by (cases "code = 1000") (simp_all add: onclose_normal onclose_abnormal)
  show "\<not> connectionTimeout (sockets (onclose n code st) ! n)"
    using assms
    by (cases "code = 1000")
       (simp_all add: onclose_normal onclose_abnormal setEngaged_false_timer clearTimeout_timer)
  show "connectionTimeout (sockets st ! m)"
    if "m < length (sockets st)" "connectionTimeout (sockets (onclose n code st) ! m)"
    using that
    by (cases "code = 1000")
       (simp_all add: onclose_normal onclose_abnormal setEngaged_false_timer clearTimeout_timer)
  show "isEngaged (onclose n code st) = isEngaged st" if "code \<noteq> 1000"
    using that by (simp add: onclose_abnormal)
  show "\<not> isEngaged (onclose n code st)" if "code = 1000"
    using that by (simp add: onclose_normal)
qed

text \<open>
  Claim C1, as amended. For every close event on a socket, whatever the
  engagement: the timer of that attempt is cancelled and \<open>isTalking\<close> is set
  false; no connect attempt begins (no socket is created, \<^verbatim>\<open>wsRef.current\<close> is
  not replaced, no timer is started), for the normal code and for every other
  code; with a code other than 1000 the engagement is left as it was, and with
  the code 1000 the engagement is set false.
\<close>

theorem close_event:
  assumes "n < length (sockets st)" and "readyState (sockets st ! n) \<noteq> CLOSED"
  shows "attempts (step P (WsClose n code) st) = attempts st \<and>
         wsRef (step P (WsClose n code) st) = wsRef st \<and>
         (\<forall>m < attempts st. connectionTimeout (sockets (step P (WsClose n code) st) ! m) \<longrightarrow>
                             connectionTimeout (sockets st ! m)) \<and>
         \<not> connectionTimeout (sockets (step P (WsClose n code) st) ! n) \<and>
         \<not> isTalking (step P (WsClose n code) st) \<and>
         (code \<noteq> 1000 \<longrightarrow> isEngaged (step P (WsClose n code) st) = isEngaged st) \<and>
         (code = 1000 \<longrightarrow> \<not> isEngaged (step P (WsClose n code) st))"
proof -
  let ?st0 = "on_socket n (\<lambda>s. s\<lparr>readyState := CLOSED\<rparr>) st"
  have s: "step P (WsClose n code) st = onclose n code ?st0"
    using assms by simp
  have n0: "n < length (sockets ?st0)" using assms by simp
  have t0: "connectionTimeout (sockets ?st0 ! m) = connectionTimeout (sockets st ! m)"
    if "m < length (sockets st)" for m
    using that by (simp add: on_socket_nth)
  note f = onclose_fields[OF n0]
  have "\<forall>m < length (sockets st). connectionTimeout (sockets (onclose n code ?st0) ! m) \<longrightarrow>
          connectionTimeout (sockets st ! m)"
    using f(5)[where code = code] t0 by simp
  then show ?thesis
    unfolding s attempts_def
    using f(1)[of code] f(2)[of code] f(3)[of code] f(4)[of code] f(6)[of code] f(7)[of code]
    by simp
qed

theorem close_event_witness:
  "0 < length (sockets open_state) \<and> readyState (sockets open_state ! 0) \<noteq> CLOSED \<and>
   isEngaged open_state \<and>
   attempts (step example_platform (WsClose 0 1000) open_state) = attempts open_state \<and>
   \<not> isEngaged (step example_platform (WsClose 0 1000) open_state) \<and>
   attempts (step example_platform (WsClose 0 1006) open_state) = attempts open_state \<and>
   isEngaged (step example_platform (WsClose 0 1006) open_state)"
proof -
  have a: "0 < length (sockets open_state)" by (simp add: open_state_eq)
  have b: "readyState (sockets open_state ! 0) \<noteq> CLOSED" by (simp add: open_state_eq)
  have c: "isEngaged open_state" by (simp add: open_state_eq)
  have d: "(1006 :: nat) \<noteq> 1000" by simp
  from close_event[OF a b, of example_platform 1000] close_event[OF a b, of example_platform 1006]
    a b c d
  show ?thesis by blast
qed

text \<open>
  The claim as stated fails on an abnormal close of the open socket of an
  engaged session: the number of attempts stays 1, the closed socket remains
  the current one and no timer is pending, so no reconnect begins.
\<close>

theorem close_event_counterexample:
  "isEngaged open_state \<and> (1006 :: nat) \<noteq> 1000 \<and>
   attempts open_state = 1 \<and>
   attempts (step example_platform (WsClose 0 1006) open_state) = 1 \<and>
   wsRef (step example_platform (WsClose 0 1006) open_state) = Some 0 \<and>
   readyState (sockets (step example_platform (WsClose 0 1006) open_state) ! 0) = CLOSED \<and>
   \<not> connectionTimeout (sockets (step example_platform (WsClose 0 1006) open_state) ! 0)"
  by (simp add: open_state_eq attempts_def onclose_def clearTimeout_def on_socket_def setTalking_def)

subsection \<open>Capture while the channel is not open\<close>

lemma onaudioprocess_not_open:
  "\<not> channel_open st \<Longrightarrow> onaudioprocess enc block st = st"
  by (simp add: onaudioprocess_def channel_open_def split: option.splits)

text \<open>
  Claim C6. An audio block captured while \<^verbatim>\<open>wsRef.current\<close> is not open leaves
  the whole state unchanged: nothing is sent and nothing is stored. So every
  later state, also after the channel has opened again, is the one reached
  without that block: the block is not replayed.
\<close>

theorem dropped_block:
  assumes "\<not> channel_open (run P before st)"
  shows "step P (AudioProcess block) (run P before st) = run P before st \<and>
         run P (before @ AudioProcess block # after) st = run P (before @ after) st"
  using assms by (simp add: run_append onaudioprocess_not_open)

lemma closed_state_eq:
  "closed_state = \<lparr>messages = [], isTalking = False, isEngaged = True,
     sockets = [\<lparr>readyState = CLOSED, connectionTimeout = False,
                 captured_isTalking = False, sent = []\<rparr>],
     wsRef = Some 0, audioContextRef = Some Ctx_running, audioWorkletNodeRef = Some [],
     processors = 1\<rparr>"
proof -
  have "closed_state = step example_platform (WsClose 0 1006) open_state"
    by (simp only: closed_state_def open_state_def run.simps)
  then show ?thesis
    by (simp add: open_state_eq onclose_def clearTimeout_def on_socket_def setTalking_def)
qed

lemma reopened_state_eq:
  "reopened_state = \<lparr>messages = [], isTalking = False, isEngaged = True,
     sockets = [\<lparr>readyState = CLOSED, connectionTimeout = False,
                 captured_isTalking = False, sent = []\<rparr>,
                \<lparr>readyState = OPEN, connectionTimeout = False,
                 captured_isTalking = False, sent = []\<rparr>],
     wsRef = Some 1, audioContextRef = Some Ctx_running, audioWorkletNodeRef = Some [],
     processors = 1\<rparr>"
proof -
  let ?off = "\<lparr>messages = [], isTalking = False, isEngaged = False,
     sockets = [\<lparr>readyState = CLOSED, connectionTimeout = False,
                 captured_isTalking = False, sent = []\<rparr>],
     wsRef = Some 0, audioContextRef = Some Ctx_closed, audioWorkletNodeRef = Some [],
     processors = 0\<rparr>"
  let ?on = "\<lparr>messages = [], isTalking = False, isEngaged = True,
     sockets = [\<lparr>readyState = CLOSED, connectionTimeout = False,
                 captured_isTalking = False, sent = []\<rparr>,
                \<lparr>readyState = CONNECTING, connectionTimeout = True,
                 captured_isTalking = False, sent = []\<rparr>],
     wsRef = Some 1, audioContextRef = Some Ctx_running, audioWorkletNodeRef = Some [],
     processors = 0\<rparr>"
  have c1: "cleanup (closed_state\<lparr>isEngaged := False\<rparr>) = ?off"
    by (simp add: closed_state_eq cleanup_def close_context_def)
  have c2: "cleanup ?off = ?off"
    by (simp add: cleanup_def)
  have e: "isEngaged closed_state" by (simp add: closed_state_eq)
  have "setEngaged_false closed_state = ?off"
    unfolding setEngaged_false_def using e by (simp only: if_True c1 c2)
  then have s1: "onClick True closed_state = ?off"
    using e by (simp add: onClick_def setTalking_def)
  have s2: "onClick True ?off = ?on"
    by (simp add: onClick_def initAudio_def initAudioWorklet_def connectWebSocket_def)
  have s3: "step example_platform (WsOpen 1 True) ?on =
     \<lparr>messages = [], isTalking = False, isEngaged = True,
     sockets = [\<lparr>readyState = CLOSED, connectionTimeout = False,
                 captured_isTalking = False, sent = []\<rparr>,
                \<lparr>readyState = OPEN, connectionTimeout = False,
                 captured_isTalking = False, sent = []\<rparr>],
     wsRef = Some 1, audioContextRef = Some Ctx_running, audioWorkletNodeRef = Some [],
     processors = 1\<rparr>"
    by (simp add: onopen_def clearTimeout_def on_socket_def initMicrophone_def)
  have "reopened_state = step example_platform (WsOpen 1 True) (onClick True (onClick True closed_state))"
    by (simp only: reopened_state_def run.simps step.simps)
  then show ?thesis by (simp only: s1 s2 s3)
qed

lemma run_closed_state:
  "run example_platform [Click True, WsOpen 0 True, WsClose 0 1006] initial = closed_state"
  by (simp only: closed_state_def)

lemma run_reopened_state:
  "run example_platform
     ([Click True, WsOpen 0 True, WsClose 0 1006] @ [Click True, Click True, WsOpen 1 True])
     initial = reopened_state"
  by (simp only: reopened_state_def closed_state_def run_append)

theorem dropped_block_witness:
  "0 < processors closed_state \<and> \<not> channel_open closed_state \<and>
   step example_platform (AudioProcess [Fin 1]) closed_state = closed_state \<and>
   run example_platform
     ([Click True, WsOpen 0 True, WsClose 0 1006] @
      AudioProcess [Fin 1] # [Click True, Click True, WsOpen 1 True]) initial = reopened_state \<and>
   channel_open reopened_state \<and>
   sent (sockets reopened_state ! 0) = [] \<and> sent (sockets reopened_state ! 1) = [] \<and>
   sent (sockets (step example_platform (AudioProcess [Fin 1]) open_state) ! 0) =
     [btoa example_platform [255, 127]]"
proof -
  have p: "0 < processors closed_state" by (simp add: closed_state_eq)
  have n: "\<not> channel_open closed_state" by (simp add: closed_state_eq channel_open_def)
  have a: "\<not> channel_open
      (run example_platform [Click True, WsOpen 0 True, WsClose 0 1006] initial)"
    unfolding run_closed_state by (rule n)
  have c: "channel_open reopened_state" "sent (sockets reopened_state ! 0) = []"
    "sent (sockets reopened_state ! 1) = []"
    by (simp_all add: reopened_state_eq channel_open_def)
  have o: "sent (sockets (step example_platform (AudioProcess [Fin 1]) open_state) ! 0) =
     [btoa example_platform [255, 127]]"
    by (simp add: open_state_eq onaudioprocess_def frame_bytes_eq floatToPcm16_map
        sample_to_pcm16_def js_trunc_def le_pair_def ws_send_def on_socket_def example_platform_def)
  from dropped_block[OF a, of "[Fin 1]" "[Click True, Click True, WsOpen 1 True]"]
  have d: "step example_platform (AudioProcess [Fin 1]) closed_state = closed_state"
    and e: "run example_platform
     ([Click True, WsOpen 0 True, WsClose 0 1006] @
      AudioProcess [Fin 1] # [Click True, Click True, WsOpen 1 True]) initial = reopened_state"
    by (simp_all only: run_closed_state run_reopened_state)
  from p n d e c o show ?thesis by blast
qed

subsection \<open>The connection timer\<close>

lemma disengaged_state_eq:
  "disengaged_state =
     \<lparr>messages = [], isTalking = False, isEngaged = False,
      sockets = [\<lparr>readyState = CLOSING, connectionTimeout = True,
                  captured_isTalking = False, sent = []\<rparr>],
      wsRef = Some 0, audioContextRef = Some Ctx_closed, audioWorkletNodeRef = Some [],
      processors = 0\<rparr>"
proof -
  have "disengaged_state = onClick True connecting_state"
    by (simp add: disengaged_state_def connecting_state_def)
  also have "\<dots> = setTalking False (setEngaged_false connecting_state)"
    by (simp add: onClick_def connecting_state_eq)
  finally have d: "disengaged_state = setTalking False (setEngaged_false connecting_state)" .
  have c1: "cleanup (connecting_state\<lparr>isEngaged := False\<rparr>) =
     \<lparr>messages = [], isTalking = False, isEngaged = False,
      sockets = [\<lparr>readyState = CLOSING, connectionTimeout = True,
                  captured_isTalking = False, sent = []\<rparr>],
      wsRef = Some 0, audioContextRef = Some Ctx_closed, audioWorkletNodeRef = Some [],
      processors = 0\<rparr>" (is "_ = ?st")
    by (simp add: connecting_state_eq cleanup_def ws_close_def on_socket_def close_context_def)
  have c2: "cleanup ?st = ?st"
    by (simp add: cleanup_def ws_close_def on_socket_def close_context_def)
  have e: "isEngaged connecting_state" by (simp add: connecting_state_eq)
  have "setEngaged_false connecting_state = ?st"
    unfolding setEngaged_false_def using e by (simp only: if_True c1 c2)
  then show ?thesis unfolding d by (simp add: setTalking_def)
qed

text \<open>
  Claim C7 asks that no connect attempt begins once engagement is false. The
  code breaks it: \<^verbatim>\<open>cleanup\<close> closes the socket but cannot cancel the timer,
  which only the handlers of the socket clear, and the callback of the timer
  does not look at the engagement. In \<open>disengaged_state\<close> the user has
  disengaged during the first attempt and the close event has not arrived yet;
  when the timer fires there, a second attempt begins, with its own timer,
  in a session that is not engaged.
\<close>

theorem reconnect_after_disengage:
  "\<not> isEngaged disengaged_state \<and> attempts disengaged_state = 1 \<and>
   connectionTimeout (sockets disengaged_state ! 0) \<and>
   \<not> isEngaged (step example_platform (TimerFired 0) disengaged_state) \<and>
   attempts (step example_platform (TimerFired 0) disengaged_state) = 2 \<and>
   wsRef (step example_platform (TimerFired 0) disengaged_state) = Some 1 \<and>
   readyState (sockets (step example_platform (TimerFired 0) disengaged_state) ! 1) = CONNECTING \<and>
   connectionTimeout (sockets (step example_platform (TimerFired 0) disengaged_state) ! 1)"
  by (simp add: disengaged_state_eq attempts_def timeout_callback_def clearTimeout_def
      on_socket_def ws_close_def connectWebSocket_def)

text \<open>
  What the timer does while it is pending: when it fires and the current
  socket is not open, that socket is closed and a further attempt begins with a
  timer of its own, whatever the engagement and without any count or delay.
\<close>

lemma timer_fired_retries:
  assumes "n < length (sockets st)" and "connectionTimeout (sockets st ! n)"
    and "wsRef st = Some c" and "c < length (sockets st)"
    and "readyState (sockets st ! c) \<noteq> OPEN"
  shows "attempts (step P (TimerFired n) st) = attempts st + 1 \<and>
         wsRef (step P (TimerFired n) st) = Some (attempts st) \<and>
         readyState (sockets (step P (TimerFired n) st) ! attempts st) = CONNECTING \<and>
         connectionTimeout (sockets (step P (TimerFired n) st) ! attempts st) \<and>
         readyState (sockets (step P (TimerFired n) st) ! c) \<noteq> OPEN \<and>
         readyState (sockets (step P (TimerFired n) st) ! c) \<noteq> CONNECTING"
  using assms
  by (simp add: attempts_def timeout_callback_def clearTimeout_def on_socket_def ws_close_def
      connectWebSocket_def nth_append nth_list_update)

subsection \<open>Dispatch of received messages\<close>

lemma postMessage_fields [simp]:
  "messages (postMessage m st) = messages st"
  "isTalking (postMessage m st) = isTalking st"
  "isEngaged (postMessage m st) = isEngaged st"
  "wsRef (postMessage m st) = wsRef st"
  "sockets (postMessage m st) = sockets st"
  "audioContextRef (postMessage m st) = audioContextRef st"
  "processors (postMessage m st) = processors st"
  by (simp_all add: postMessage_def split: option.splits)

lemma queued_setTalking [simp]: "queued (setTalking b st) = queued st"
  by (simp add: queued_def)

lemma queued_post_stop: "queued (postMessage Port_stop st) = []"
  by (simp add: queued_def postMessage_def split: option.splits)

lemma onmessage_stop:
  "get_prop chunk ''event'' = Inr (Some (JStr ''stop'')) \<Longrightarrow>
   onmessage dec n (Some chunk) st = setTalking False (postMessage Port_stop st)"
  by (simp add: onmessage_def)

lemma audioWorkletNodeRef_postMessage:
  "audioWorkletNodeRef (postMessage m st) =
     map_option (\<lambda>posted. posted @ [m]) (audioWorkletNodeRef st)"
  by (simp add: postMessage_def split: option.splits)

lemma audioWorkletNodeRef_setTalking [simp]:
  "audioWorkletNodeRef (setTalking b st) = audioWorkletNodeRef st"
  by (simp add: setTalking_def)

text \<open>
  Claim C8. Dispatching a message whose \<^verbatim>\<open>event\<close> is \<^verbatim>\<open>"stop"\<close> posts a stop
  message to the port of the worklet node, after everything posted before (and
  keeps the ref as it is when there is no node), which leaves the render queue
  empty; it sets \<open>isTalking\<close> false, and changes nothing of the capture side:
  the sockets with their sent frames, the current socket, the processors and
  the audio context are as before, as are the transcript and the engagement.
\<close>

theorem stop_message:
  assumes "get_prop chunk ''event'' = Inr (Some (JStr ''stop''))"
  shows "audioWorkletNodeRef (onmessage dec n (Some chunk) st) =
           map_option (\<lambda>posted. posted @ [Port_stop]) (audioWorkletNodeRef st) \<and>
         queued (onmessage dec n (Some chunk) st) = [] \<and>
         \<not> isTalking (onmessage dec n (Some chunk) st) \<and>
         sockets (onmessage dec n (Some chunk) st) = sockets st \<and>
         wsRef (onmessage dec n (Some chunk) st) = wsRef st \<and>
         processors (onmessage dec n (Some chunk) st) = processors st \<and>
         audioContextRef (onmessage dec n (Some chunk) st) = audioContextRef st \<and>
         messages (onmessage dec n (Some chunk) st) = messages st \<and>
         isEngaged (onmessage dec n (Some chunk) st) = isEngaged st"
  by (simp add: onmessage_stop[OF assms] queued_post_stop audioWorkletNodeRef_postMessage)

theorem stop_message_witness:
  "audioWorkletNodeRef (postMessage (Port_data [Fin 0]) open_state) = Some [Port_data [Fin 0]] \<and>
   queued (postMessage (Port_data [Fin 0]) open_state) = [[Fin 0]] \<and>
   audioWorkletNodeRef
     (onmessage (atob example_platform) 0 (Some (JObj [(''event'', JStr ''stop'')]))
        (postMessage (Port_data [Fin 0]) open_state)) = Some [Port_data [Fin 0], Port_stop] \<and>
   queued (onmessage (atob example_platform) 0 (Some (JObj [(''event'', JStr ''stop'')]))
      (postMessage (Port_data [Fin 0]) open_state)) = [] \<and>
   processors (onmessage (atob example_platform) 0 (Some (JObj [(''event'', JStr ''stop'')]))
      (postMessage (Port_data [Fin 0]) open_state)) = 1"
proof -
  have a: "get_prop (JObj [(''event'', JStr ''stop'')]) ''event'' = Inr (Some (JStr ''stop''))"
    by simp
  have b: "audioWorkletNodeRef (postMessage (Port_data [Fin 0]) open_state) =
             Some [Port_data [Fin 0]]"
    "queued (postMessage (Port_data [Fin 0]) open_state) = [[Fin 0]]"
    "processors open_state = 1"
    by (simp_all add: queued_def postMessage_def open_state_eq)
  from stop_message[OF a, of "atob example_platform" 0 "postMessage (Port_data [Fin 0]) open_state"] b
  show ?thesis by simp
qed

lemma pcm16ToFloat_short: "length bytes < 2 \<Longrightarrow> pcm16ToFloat bytes = Inr []"
  by (simp add: pcm16ToFloat_map)

text \<open>
  Claim C10. A media message whose payload decodes to fewer than two bytes
  leaves the state unchanged: nothing is posted to the worklet and \<open>isTalking\<close>
  keeps its value.
\<close>

theorem empty_media:
  assumes "get_prop chunk ''event'' = Inr (Some (JStr ''media''))"
    and "get_prop chunk ''data'' = Inr base64Data"
    and "dec base64Data = Some bytes" and "length bytes < 2"
  shows "onmessage dec n (Some chunk) st = st"
  using assms by (simp add: onmessage_def pcm16ToFloat_short)

theorem empty_media_witness:
  "onmessage (atob example_platform) 0
     (Some (JObj [(''event'', JStr ''media''), (''data'', JStr ''A'')])) open_state = open_state"
proof -
  have a: "get_prop (JObj [(''event'', JStr ''media''), (''data'', JStr ''A'')]) ''event'' =
           Inr (Some (JStr ''media''))"
    by simp
  have b: "get_prop (JObj [(''event'', JStr ''media''), (''data'', JStr ''A'')]) ''data'' =
           Inr (Some (JStr ''A''))"
    by simp
  have c: "atob example_platform (Some (JStr ''A'')) = Some [65]"
    by (simp add: example_platform_def)
  have d: "length [65 :: byte] < 2" by simp
  from empty_media[where dec = "atob example_platform", OF a b c d] show ?thesis .
qed

lemma onmessage_text:
  "get_prop chunk ''event'' = Inr (Some (JStr ''text'')) \<Longrightarrow>
   onmessage dec n (Some chunk) st = st\<lparr>messages := messages st @ [transcript_entry chunk]\<rparr>"
  by (cases chunk) (simp_all add: onmessage_def transcript_entry_def)

lemma run_text_messages:
  assumes "n < length (sockets st)" "readyState (sockets st ! n) = OPEN"
    and "\<forall>c \<in> set chunks. get_prop c ''event'' = Inr (Some (JStr ''text''))"
  shows "run P (map (\<lambda>c. WsMessage n (Some c)) chunks) st =
         st\<lparr>messages := messages st @ map transcript_entry chunks\<rparr>"
  using assms
proof (induction chunks arbitrary: st)
  case Nil
  then show ?case by simp
next
  case (Cons c cs)
  let ?st1 = "st\<lparr>messages := messages st @ [transcript_entry c]\<rparr>"
  have s: "step P (WsMessage n (Some c)) st = ?st1"
    using Cons.prems by (simp add: onmessage_text)
  have ih: "run P (map (\<lambda>c. WsMessage n (Some c)) cs) ?st1 =
        ?st1\<lparr>messages := messages ?st1 @ map transcript_entry cs\<rparr>"
    using Cons.prems by (intro Cons.IH) simp_all
  have r: "run P (map (\<lambda>c. WsMessage n (Some c)) (c # cs)) st =
           run P (map (\<lambda>c. WsMessage n (Some c)) cs) ?st1"
    by (simp only: list.map run.simps s)
  show ?case unfolding r ih by simp
qed

lemma messages_onmessage:
  "prefix (messages st) (messages (onmessage dec n parsed st))"
  by (auto simp: onmessage_def Let_def split: option.splits sum.splits)

lemma messages_onaudioprocess [simp]:
  "messages (onaudioprocess enc input st) = messages st"
  by (simp add: onaudioprocess_def ws_send_def split: option.splits sum.splits)

lemma messages_connectWebSocket [simp]:
  "messages (connectWebSocket seen st) = messages st"
  by (simp add: connectWebSocket_def)

lemma messages_ws_close [simp]: "messages (ws_close n st) = messages st"
  by (simp add: ws_close_def)

lemma messages_timeout_callback [simp]:
  "messages (timeout_callback n st) = messages st"
  by (simp add: timeout_callback_def split: option.splits)

lemma messages_onopen [simp]: "messages (onopen n granted st) = messages st"
  by (simp add: onopen_def initMicrophone_def)

lemma messages_onerror [simp]: "messages (onerror n st) = messages st"
  by (simp add: onerror_def)

lemma messages_onclose [simp]: "messages (onclose n code st) = messages st"
  by (simp add: onclose_def Let_def)

lemma messages_initAudio [simp]: "messages (initAudio ok st) = messages st"
  by (simp add: initAudio_def initAudioWorklet_def close_context_def Let_def)

lemma messages_onClick [simp]: "messages (onClick ok st) = messages st"
  by (simp add: onClick_def)

lemma messages_step: "prefix (messages st) (messages (step P e st))"
  by (cases e) (simp_all add: messages_onmessage)

lemma messages_run: "prefix (messages st) (messages (run P evs st))"
proof (induction evs arbitrary: st)
  case Nil
  then show ?case by simp
next
  case (Cons e evs)
  have "prefix (messages st) (messages (step P e st))" by (rule messages_step)
  moreover have "prefix (messages (step P e st)) (messages (run P evs (step P e st)))"
    by (rule Cons.IH)
  ultimately have "prefix (messages st) (messages (run P evs (step P e st)))"
    by (rule prefix_order.trans)
  then show ?case by (simp only: run.simps)
qed

text \<open>
  Claim C9. Text messages received on an open socket are appended to the
  transcript in receipt order, each with \<open>isMine\<close> true exactly when its
  \<^verbatim>\<open>speaker\<close> is the string \<^verbatim>\<open>"user"\<close>; and whatever events occur, the transcript
  before them is a prefix of the transcript after them, so no entry is changed
  or removed. The witness is the example of the claim.
\<close>

theorem transcript_in_order:
  assumes "n < length (sockets st)" and "readyState (sockets st ! n) = OPEN"
    and "\<forall>c \<in> set chunks. get_prop c ''event'' = Inr (Some (JStr ''text''))"
  shows "messages (run P (map (\<lambda>c. WsMessage n (Some c)) chunks) st) =
           messages st @ map transcript_entry chunks \<and>
         (\<forall>c \<in> set chunks. isMine (transcript_entry c) =
             (get_prop c ''speaker'' = Inr (Some (JStr ''user'')))) \<and>
         (\<forall>evs. prefix (messages st) (messages (run P evs st)))"
  using run_text_messages[OF assms, of P] messages_run[of st P]
  by (simp add: transcript_entry_def)

theorem transcript_in_order_witness:
  "messages (run example_platform
      (map (\<lambda>c. WsMessage 0 (Some c))
        [JObj [(''event'', JStr ''text''), (''speaker'', JStr ''user''), (''data'', JStr ''Hi'')],
         JObj [(''event'', JStr ''text''), (''speaker'', JStr ''agent''), (''data'', JStr ''Hello'')]])
      open_state) =
   [\<lparr>isMine = True, text' = Some (JStr ''Hi'')\<rparr>, \<lparr>isMine = False, text' = Some (JStr ''Hello'')\<rparr>]"
proof -
  have a: "0 < length (sockets open_state)" by (simp add: open_state_eq)
  have b: "readyState (sockets open_state ! 0) = OPEN" by (simp add: open_state_eq)
  have m: "messages open_state = []" by (simp add: open_state_eq)
  have c: "\<forall>c \<in> set [JObj [(''event'', JStr ''text''), (''speaker'', JStr ''user''), (''data'', JStr ''Hi'')],
         JObj [(''event'', JStr ''text''), (''speaker'', JStr ''agent''), (''data'', JStr ''Hello'')]].
         get_prop c ''event'' = Inr (Some (JStr ''text''))"
    by simp
  from transcript_in_order[OF a b c, of example_platform]
  have "messages (run example_platform
      (map (\<lambda>c. WsMessage 0 (Some c))
        [JObj [(''event'', JStr ''text''), (''speaker'', JStr ''user''), (''data'', JStr ''Hi'')],
         JObj [(''event'', JStr ''text''), (''speaker'', JStr ''agent''), (''data'', JStr ''Hello'')]])
      open_state) = messages open_state @ map transcript_entry
        [JObj [(''event'', JStr ''text''), (''speaker'', JStr ''user''), (''data'', JStr ''Hi'')],
         JObj [(''event'', JStr ''text''), (''speaker'', JStr ''agent''), (''data'', JStr ''Hello'')]]"
    by (rule conjunct1)
  then show ?thesis unfolding m by (simp add: transcript_entry_def)
qed

end
